theory Spec2Isabelle
  imports Complex_Main
begin

section \<open>JavaScript numbers\<close>

text \<open>
  A JavaScript number is modelled as an exact rational or one of the three non-finite
  values. The binary rounding of IEEE doubles, the sign of zero and overflow to
  infinity are not part of the model: the arithmetic below is the exact one, with the
  IEEE rules for the non-finite values and for division by zero (zero being +0).
  A double has 53 binary digits, and the parser rounds to four decimals and then to
  an integer; so the general statements below about the digits of an amount are made
  for integer amounts of magnitude at most \<open>10^15\<close>, where the program's results in
  doubles are those of the exact arithmetic (see \<open>near\<close> below).
\<close>

datatype jsnum = Fin rat | PInf | NInf | NaN

fun jneg :: "jsnum \<Rightarrow> jsnum" where
  "jneg (Fin a) = Fin (- a)"
| "jneg PInf = NInf"
| "jneg NInf = PInf"
| "jneg NaN = NaN"

fun jadd :: "jsnum \<Rightarrow> jsnum \<Rightarrow> jsnum" where
  "jadd NaN _ = NaN"
| "jadd _ NaN = NaN"
| "jadd (Fin a) (Fin b) = Fin (a + b)"
| "jadd (Fin a) PInf = PInf"
| "jadd (Fin a) NInf = NInf"
| "jadd PInf NInf = NaN"
| "jadd NInf PInf = NaN"
| "jadd PInf _ = PInf"
| "jadd NInf _ = NInf"

definition jsub :: "jsnum \<Rightarrow> jsnum \<Rightarrow> jsnum" where
  "jsub a b = jadd a (jneg b)"

text \<open>The infinity of the given sign: \<open>True\<close> is the positive one.\<close>

definition inf_of :: "bool \<Rightarrow> jsnum" where
  "inf_of pos = (if pos then PInf else NInf)"

fun jmul :: "jsnum \<Rightarrow> jsnum \<Rightarrow> jsnum" where
  "jmul NaN _ = NaN"
| "jmul _ NaN = NaN"
| "jmul (Fin a) (Fin b) = Fin (a * b)"
| "jmul (Fin a) PInf = (if a = 0 then NaN else inf_of (0 < a))"
| "jmul (Fin a) NInf = (if a = 0 then NaN else inf_of (a < 0))"
| "jmul PInf (Fin b) = (if b = 0 then NaN else inf_of (0 < b))"
| "jmul NInf (Fin b) = (if b = 0 then NaN else inf_of (b < 0))"
| "jmul PInf PInf = PInf"
| "jmul PInf NInf = NInf"
| "jmul NInf PInf = NInf"
| "jmul NInf NInf = PInf"

fun jdiv :: "jsnum \<Rightarrow> jsnum \<Rightarrow> jsnum" where
  "jdiv NaN _ = NaN"
| "jdiv _ NaN = NaN"
| "jdiv (Fin a) (Fin b) =
     (if b = 0 then (if a = 0 then NaN else inf_of (0 < a)) else Fin (a / b))"
| "jdiv (Fin a) PInf = Fin 0"
| "jdiv (Fin a) NInf = Fin 0"
| "jdiv PInf (Fin b) = inf_of (0 \<le> b)"
| "jdiv NInf (Fin b) = inf_of (b < 0)"
| "jdiv PInf _ = NaN"
| "jdiv NInf _ = NaN"

text \<open>\<open>Math.floor\<close>, \<open>Math.ceil\<close>, \<open>Math.abs\<close>.\<close>

fun jfloor :: "jsnum \<Rightarrow> jsnum" where
  "jfloor (Fin a) = Fin (of_int \<lfloor>a\<rfloor>)"
| "jfloor x = x"

fun jceil :: "jsnum \<Rightarrow> jsnum" where
  "jceil (Fin a) = Fin (of_int \<lceil>a\<rceil>)"
| "jceil x = x"

fun jabs :: "jsnum \<Rightarrow> jsnum" where
  "jabs (Fin a) = Fin \<bar>a\<bar>"
| "jabs PInf = PInf"
| "jabs NInf = PInf"
| "jabs NaN = NaN"

text \<open>The comparisons \<open>x >= 0\<close> and \<open>x > 0\<close>: false on \<open>NaN\<close>.\<close>

fun ge0 :: "jsnum \<Rightarrow> bool" where
  "ge0 (Fin a) = (0 \<le> a)"
| "ge0 PInf = True"
| "ge0 NInf = False"
| "ge0 NaN = False"

fun gt0 :: "jsnum \<Rightarrow> bool" where
  "gt0 (Fin a) = (0 < a)"
| "gt0 PInf = True"
| "gt0 NInf = False"
| "gt0 NaN = False"

text \<open>Truthiness of a number, as \<open>||\<close> tests it: zero and \<open>NaN\<close> are falsy.\<close>

fun truthy :: "jsnum \<Rightarrow> bool" where
  "truthy (Fin a) = (a \<noteq> 0)"
| "truthy NaN = False"
| "truthy _ = True"

text \<open>
  \<open>const round = v => Math.round(v)\<close>: the nearest integer, a tie going up.
  \<open>const pow = p => Math.pow(10, p)\<close>, the number of decimals being a natural number.
  \<open>const rounding = (value, increment) => round(value / increment) * increment\<close>.
\<close>

fun round' :: "jsnum \<Rightarrow> jsnum" where
  "round' (Fin a) = Fin (of_int \<lfloor>a + 1 / 2\<rfloor>)"
| "round' x = x"

definition pow :: "nat \<Rightarrow> jsnum" where
  "pow p = Fin (10 ^ p)"

definition rounding :: "jsnum \<Rightarrow> jsnum \<Rightarrow> jsnum" where
  "rounding v inc = jmul (round' (jdiv v inc)) inc"

text \<open>
  Doubles. The result of an operation on doubles, and the number a decimal string is
  read as, is the double nearest to the exact result \<open>x\<close>; short of overflow and
  underflow it differs from \<open>x\<close> by at most \<open>\<bar>x\<bar> / 2^53\<close>. \<open>near x y\<close> says this of \<open>y\<close>.
  The powers of ten up to \<open>10^22\<close> are doubles. The functions above compute with the
  exact results; the section on rounding to doubles shows that, on integer amounts of
  magnitude at most \<open>10^15\<close>, the parser and \<open>toString\<close> give the same integer and the
  same digits whichever values \<open>near\<close> the exact ones the intermediate results take.
\<close>

definition near :: "rat \<Rightarrow> rat \<Rightarrow> bool" where
  "near x y = (\<bar>y - x\<bar> \<le> \<bar>x\<bar> / 2 ^ 53)"

section \<open>Errors\<close>

text \<open>
  What the program can raise: the \<open>Error('Invalid Input')\<close> of the parser, the
  \<open>SyntaxError\<close> of \<open>new RegExp\<close> and the \<open>RangeError\<close> of \<open>toFixed\<close>. The last
  value is no error of the program: a function returns \<open>Uninterpreted\<close> where the
  model does not say what the program does (a decimal setting whose regular
  expressions are not read here, the exponent notation of large numbers, a
  separator with a dollar sign). No theorem is about a run that ends there.
\<close>

datatype error = InvalidInput | SyntaxError | RangeError | Uninterpreted

section \<open>Decimal strings\<close>

definition is_digit :: "char \<Rightarrow> bool" where
  "is_digit c = (48 \<le> (of_char c :: nat) \<and> (of_char c :: nat) \<le> 57)"

definition digit_char :: "nat \<Rightarrow> char" where
  "digit_char d = char_of (48 + d)"

definition digit_val :: "char \<Rightarrow> nat" where
  "digit_val c = of_char c - 48"

text \<open>The decimal digits of a natural number, most significant first, and their value.\<close>

fun nat_digits :: "nat \<Rightarrow> string" where
  "nat_digits n =
     (if n < 10 then [digit_char n] else nat_digits (n div 10) @ [digit_char (n mod 10)])"

declare nat_digits.simps [simp del]

definition digits_val :: "string \<Rightarrow> nat" where
  "digits_val s = foldl (\<lambda>a c. 10 * a + digit_val c) 0 s"

text \<open>
  \<open>Number.prototype.toFixed(f)\<close> on the exact value. More than 100 digits raise a
  \<open>RangeError\<close>, whatever the number. A number that is not finite prints as its name.
  From \<open>10^21\<close> on the result is the exponent notation of \<open>String(x)\<close>, which is not
  interpreted here. Below that, \<open>n\<close> is the integer for which \<open>n / 10^f - x\<close> is
  closest to zero, the larger one on a tie, taken on the absolute value; its digits
  are padded with zeros to \<open>f + 1\<close> places and the point is put before the last \<open>f\<close>.
  A negative \<open>x\<close> gets the sign in front.
\<close>

definition fixed_int :: "rat \<Rightarrow> nat \<Rightarrow> nat" where
  "fixed_int x f = nat \<lfloor>\<bar>x\<bar> * 10 ^ f + 1 / 2\<rfloor>"

definition place_point :: "string \<Rightarrow> nat \<Rightarrow> string" where
  "place_point m f =
     (if f = 0 then m
      else let z = (if length m \<le> f then replicate (f + 1 - length m) (CHR ''0'') @ m else m)
           in take (length z - f) z @ CHR ''.'' # drop (length z - f) z)"

definition toFixed :: "jsnum \<Rightarrow> nat \<Rightarrow> error + string" where
  "toFixed v f =
     (if 100 < f then Inl RangeError
      else case v of
             NaN \<Rightarrow> Inr ''NaN''
           | PInf \<Rightarrow> Inr ''Infinity''
           | NInf \<Rightarrow> Inr ''-Infinity''
           | Fin x \<Rightarrow>
               if 10 ^ 21 \<le> \<bar>x\<bar> then Inl Uninterpreted
               else Inr ((if x < 0 then ''-'' else [])
                         @ place_point (nat_digits (fixed_int x f)) f))"

text \<open>
  \<open>Number(s)\<close> on the strings this program passes to it: the empty string is 0; an
  optional sign is followed by \<open>Infinity\<close> or by digits with at most one point and at
  least one digit; everything else is \<open>NaN\<close>. (White space, exponents and radix
  prefixes cannot reach it: the parser removes every character but digits, the minus
  sign and the decimal point first.)
\<close>

definition unsigned_decimal :: "string \<Rightarrow> jsnum" where
  "unsigned_decimal s =
     (let ip = takeWhile is_digit s; rest = dropWhile is_digit s
      in if s = ''Infinity'' then PInf
         else if rest = [] then (if ip = [] then NaN else Fin (of_nat (digits_val ip)))
         else if hd rest = CHR ''.'' \<and> list_all is_digit (tl rest) \<and> \<not> (ip = [] \<and> tl rest = [])
           then Fin (of_nat (digits_val ip) + of_nat (digits_val (tl rest)) / 10 ^ length (tl rest))
         else NaN)"

definition Number :: "string \<Rightarrow> jsnum" where
  "Number s =
     (case s of
        [] \<Rightarrow> Fin 0
      | c # t \<Rightarrow>
          if c = CHR ''-'' then jneg (unsigned_decimal t)
          else if c = CHR ''+'' then unsigned_decimal t
          else unsigned_decimal s)"

text \<open>
  \<open>Number(v.toFixed(f))\<close> as a function on numbers, for the four digits the parser
  asks for: the decimal string is read back exactly, and from \<open>10^21\<close> on, where the
  string is \<open>String(v)\<close>, the number read back is \<open>v\<close>, which is an integer there.
  Lemma \<open>Number_toFixed\<close> below proves it equal to \<open>Number\<close> applied to the string
  that \<open>toFixed\<close> returns.
\<close>

fun toFixed_num :: "jsnum \<Rightarrow> nat \<Rightarrow> jsnum" where
  "toFixed_num (Fin x) f =
     Fin ((if x < 0 then - 1 else 1) * of_nat (fixed_int x f) / 10 ^ f)"
| "toFixed_num x f = x"

section \<open>Settings, values and the parser\<close>

datatype grouping = groupRegex | vedicRegex

text \<open>
  The settings object: the fields of \<open>DefaultSettings\<close> and the three the constructor
  adds. An absent \<open>increment\<close> or \<open>groups\<close> is \<open>None\<close>, an absent \<open>useVedic\<close> is
  \<open>False\<close>. The options argument of the constructor is given
  already merged with the defaults, as \<open>Object.assign({}, defaults, opts)\<close> returns it.
\<close>

record Settings =
  symbol :: string
  separator :: string
  decimal :: string
  formatWithSymbol :: bool
  errorOnInvalid :: bool
  precision :: nat
  pattern :: string
  negativePattern :: string
  increment :: "jsnum option"
  useVedic :: bool
  groups :: "grouping option"

definition defaults :: Settings where
  "defaults =
     \<lparr>symbol = ''$'', separator = '','', decimal = ''.'', formatWithSymbol = False,
      errorOnInvalid = False, precision = 2, pattern = ''!#'', negativePattern = ''-!#'',
      increment = None, useVedic = False, groups = None\<rparr>"

record Currency =
  intValue :: jsnum
  value' :: jsnum
  settings' :: Settings
  precision' :: jsnum

text \<open>
  What a caller can pass as a value: a number, a string, a currency object, or
  anything else (\<open>undefined\<close>, \<open>null\<close>, a boolean, another object).
\<close>

datatype Value = VNum jsnum | VStr string | VCur Currency | VOther

text \<open>
  \<open>.replace(/\((.*)\)/, '-$1')\<close>: the first opening parenthesis that has a closing one
  later on its line is matched together with everything up to the last such closing
  parenthesis (the star is greedy and the dot stops at a line terminator); the match
  is replaced by a minus sign and what stood between the two.
\<close>

definition line_terminator :: "char \<Rightarrow> bool" where
  "line_terminator c = (c = CHR 0x0A \<or> c = CHR 0x0D)"

definition close_paren :: "string \<Rightarrow> (string \<times> string) option" where
  "close_paren s =
     (let line = takeWhile (\<lambda>c. \<not> line_terminator c) s;
          back = takeWhile (\<lambda>c. c \<noteq> CHR '')'') (rev line)
      in if CHR '')'' \<in> set line
         then Some (take (length line - Suc (length back)) line,
                    rev back @ drop (length line) s)
         else None)"

fun replace_parens :: "string \<Rightarrow> string" where
  "replace_parens [] = []"
| "replace_parens (c # s) =
     (if c = CHR ''(''
      then (case close_paren s of
              Some (inner, after) \<Rightarrow> CHR ''-'' # inner @ after
            | None \<Rightarrow> c # replace_parens s)
      else c # replace_parens s)"

text \<open>
  The two regular expressions built from the decimal setting,
  \<open>new RegExp('[^-\\d' + decimal + ']', 'g')\<close> and \<open>new RegExp('\\' + decimal, 'g')\<close>.
  For the empty string the second one is a lone backslash, for a backslash the first
  one is a class that is not closed: the constructor raises a \<open>SyntaxError\<close>. For one
  character that stands for itself in a character class and after a backslash
  (\<open>plain_decimal\<close>: a printable character that is no letter, digit, underscore,
  backslash or closing bracket; the default point and the comma are such) the first
  matches every character but the minus sign, the digits and that character, the
  second matches that character. Any other setting is not interpreted.
\<close>

definition plain_decimal :: "char \<Rightarrow> bool" where
  "plain_decimal c =
     (let n = (of_char c :: nat)
      in 32 \<le> n \<and> n < 127 \<and> \<not> is_digit c \<and> \<not> (65 \<le> n \<and> n \<le> 90) \<and> \<not> (97 \<le> n \<and> n \<le> 122)
         \<and> c \<noteq> CHR 0x5C \<and> c \<noteq> CHR '']'' \<and> c \<noteq> CHR ''_'')"

datatype regexps = Throws | Plain char | Other

definition decimal_regexps :: "string \<Rightarrow> regexps" where
  "decimal_regexps d =
     (case d of
        [] \<Rightarrow> Throws
      | c # t \<Rightarrow>
          if t = [] then (if c = CHR 0x5C then Throws else if plain_decimal c then Plain c else Other)
          else Other)"

text \<open>
  \<open>.replace(regex, '')\<close> and \<open>.replace(decimalString, '.')\<close> with these expressions:
  every match, a single character, is replaced.
\<close>

definition strip_non_numeric :: "char \<Rightarrow> string \<Rightarrow> string" where
  "strip_non_numeric dec s =
     concat (map (\<lambda>c. if c = CHR ''-'' \<or> is_digit c \<or> c = dec then [c] else []) s)"

definition convert_decimal :: "char \<Rightarrow> string \<Rightarrow> string" where
  "convert_decimal dec s = concat (map (\<lambda>c. if c = dec then ''.'' else [c]) s)"

text \<open>
  \<open>function parse(value, opts, useRounding = true)\<close>. It raises in the last branch, and
  in the branch for strings when the regular expressions cannot be built.
\<close>

definition parse :: "Value \<Rightarrow> Settings \<Rightarrow> bool \<Rightarrow> error + jsnum" where
  "parse val opts useRounding =
     (let precision = pow (precision opts)
      in case (case val of
                 VCur c \<Rightarrow> Inr (jmul (value' c) precision)
               | VNum n \<Rightarrow> Inr n
               | VStr s \<Rightarrow>
                   (case decimal_regexps (decimal opts) of
                      Throws \<Rightarrow> Inl SyntaxError
                    | Other \<Rightarrow> Inl Uninterpreted
                    | Plain dec \<Rightarrow>
                        (let v = jmul (Number (convert_decimal dec
                                        (strip_non_numeric dec (replace_parens s))))
                                      precision
                         in Inr (if truthy v then v else Fin 0)))
               | VOther \<Rightarrow> if errorOnInvalid opts then Inl InvalidInput else Inr (Fin 0)) of
           Inl e \<Rightarrow> Inl e
         | Inr v \<Rightarrow>
             (let v4 = toFixed_num v 4
              in Inr (if useRounding then round' v4 else v4)))"

section \<open>The constructor and the arithmetic\<close>

text \<open>\<open>settings.increment || (1 / precision)\<close>, an absent increment being falsy.\<close>

definition increment_or :: "jsnum option \<Rightarrow> jsnum \<Rightarrow> jsnum" where
  "increment_or inc d = (case inc of None \<Rightarrow> d | Some i \<Rightarrow> if truthy i then i else d)"

definition currency :: "Value \<Rightarrow> Settings \<Rightarrow> error + Currency" where
  "currency val opts =
     (let settings = opts; precision = pow (Settings.precision settings)
      in case parse val settings True of
           Inl e \<Rightarrow> Inl e
         | Inr v \<Rightarrow>
             Inr \<lparr>intValue = v,
                  value' = jdiv v precision,
                  settings' = settings
                    \<lparr>increment := Some (increment_or (increment settings) (jdiv (Fin 1) precision)),
                     groups := Some (if useVedic settings then vedicRegex else groupRegex)\<rparr>,
                  precision' = precision\<rparr>)"

text \<open>
  The four operations read the receiver's fields into locals, compute on the locals and
  construct a new object. \<open>multiply\<close> takes the factor as a number, without parsing it;
  \<open>divide\<close> parses the divisor without the final rounding.
\<close>

definition add :: "Currency \<Rightarrow> Value \<Rightarrow> error + Currency" where
  "add this number =
     (case parse number (settings' this) True of
        Inl e \<Rightarrow> Inl e
      | Inr n \<Rightarrow>
          currency (VNum (jdiv (jadd (intValue this) n) (precision' this))) (settings' this))"

definition subtract :: "Currency \<Rightarrow> Value \<Rightarrow> error + Currency" where
  "subtract this number =
     (case parse number (settings' this) True of
        Inl e \<Rightarrow> Inl e
      | Inr n \<Rightarrow>
          currency (VNum (jdiv (jsub (intValue this) n) (precision' this))) (settings' this))"



section \<open>Distribution\<close>

text \<open>
  The loop of \<open>distribute\<close>: \<open>for (; count !== 0; count--)\<close>. It need not end, so the
  result is optional: \<open>None\<close> is a run that never leaves the loop. \<open>pennies-- > 0\<close>
  compares the old value and decrements in either case.
\<close>

partial_function (option) distribute_loop ::
  "Currency \<Rightarrow> jsnum \<Rightarrow> jsnum \<Rightarrow> jsnum \<Rightarrow> Currency list \<Rightarrow> (error + Currency list) option"
where
  "distribute_loop this split count pennies distribution =
     (if count = Fin 0 then Some (Inr distribution)
      else case currency (VNum (jdiv split (precision' this))) (settings' this) of
             Inl e \<Rightarrow> Some (Inl e)
           | Inr item \<Rightarrow>
               (case (if gt0 pennies
                      then (if ge0 (intValue this)
                            then add item (VNum (jdiv (Fin 1) (precision' this)))
                            else subtract item (VNum (jdiv (Fin 1) (precision' this))))
                      else Inr item) of
                  Inl e \<Rightarrow> Some (Inl e)
                | Inr item' \<Rightarrow>
                    distribute_loop this split (jsub count (Fin 1)) (jsub pennies (Fin 1))
                      (distribution @ [item'])))"

declare distribute_loop.simps [code]

definition split_of :: "Currency \<Rightarrow> jsnum \<Rightarrow> jsnum" where
  "split_of this count =
     (if ge0 (intValue this) then jfloor (jdiv (intValue this) count)
      else jceil (jdiv (intValue this) count))"

definition pennies_of :: "Currency \<Rightarrow> jsnum \<Rightarrow> jsnum" where
  "pennies_of this count = jabs (jsub (intValue this) (jmul (split_of this count) count))"

definition distribute :: "Currency \<Rightarrow> jsnum \<Rightarrow> (error + Currency list) option" where
  "distribute this count =
     distribute_loop this (split_of this count) count (pennies_of this count) []"

section \<open>Formatting\<close>

text \<open>A number read from a field that may be absent: \<open>undefined\<close> converts to \<open>NaN\<close>.\<close>

definition num_of :: "jsnum option \<Rightarrow> jsnum" where
  "num_of x = (case x of None \<Rightarrow> NaN | Some n \<Rightarrow> n)"

definition toString :: "Currency \<Rightarrow> error + string" where
  "toString this =
     toFixed (rounding (jdiv (intValue this) (precision' this))
                (num_of (increment (settings' this))))
       (precision (settings' this))"








section \<open>Objects and references\<close>

















section \<open>Example objects\<close>

text \<open>
  The default settings as the constructor completes them, and the object it builds
  with them for a given \<open>intValue\<close>; the same with \<open>formatWithSymbol\<close> set or not.
\<close>

definition constructed_defaults :: Settings where
  "constructed_defaults =
     defaults\<lparr>increment := Some (Fin (1 / 100)), groups := Some groupRegex\<rparr>"

definition with_cents :: "rat \<Rightarrow> Currency" where
  "with_cents n =
     \<lparr>intValue = Fin n, value' = Fin (n / 100), settings' = constructed_defaults,
      precision' = Fin 100\<rparr>"



text \<open>The sum of the \<open>intValue\<close> fields of a sequence of objects.\<close>

definition sum_intValue :: "Currency list \<Rightarrow> jsnum" where
  "sum_intValue xs = foldl jadd (Fin 0) (map intValue xs)"

fun finite_num :: "jsnum \<Rightarrow> bool" where
  "finite_num (Fin a) = True"
| "finite_num x = False"

section \<open>Facts about the numbers and the parser\<close>

lemma floor_rat_numeral [simp]:
  "\<lfloor>numeral a / numeral b :: rat\<rfloor> = numeral a div numeral b"
  by (metis floor_divide_of_int_eq of_int_numeral)

lemma floor_rat_neg_numeral [simp]:
  "\<lfloor>- (numeral a / numeral b) :: rat\<rfloor> = - numeral a div numeral b"
  by (metis floor_divide_of_int_eq of_int_numeral of_int_minus minus_divide_left)

lemma floor_rat_half [simp]: "\<lfloor>1 / 2 :: rat\<rfloor> = 0"
  by linarith

lemma digit_char_numeral:
  "digit_char 0 = CHR ''0''" "digit_char 1 = CHR ''1''" "digit_char 2 = CHR ''2''"
  "digit_char 3 = CHR ''3''" "digit_char 4 = CHR ''4''" "digit_char 5 = CHR ''5''"
  "digit_char 6 = CHR ''6''" "digit_char 7 = CHR ''7''" "digit_char 8 = CHR ''8''"
  "digit_char 9 = CHR ''9''" "digit_char (Suc 0) = CHR ''1''"
  by (code_simp)+

text \<open>The unfoldings that evaluate the model on a concrete input.\<close>

lemmas num_eval = fixed_int_def pow_def inf_of_def jsub_def rounding_def increment_or_def
  num_of_def

lemmas str_eval = Number_def unsigned_decimal_def is_digit_def digits_val_def digit_val_def
  strip_non_numeric_def convert_decimal_def close_paren_def line_terminator_def
  place_point_def nat_digits.simps digit_char_numeral decimal_regexps_def plain_decimal_def
  toFixed_def

lemmas obj_eval = parse_def currency_def add_def subtract_def with_cents_def
  constructed_defaults_def defaults_def Let_def

lemma pow_defaults [simp]: "pow (precision defaults) = Fin 100"
  by (simp add: pow_def defaults_def)

lemma floor_int_half: "\<lfloor>rat_of_int n + 1 / 2\<rfloor> = n"
  by linarith

lemma toFixed_num_int [simp]: "toFixed_num (Fin (of_int k)) f = Fin (of_int k)"
proof -
  have "\<bar>rat_of_int k\<bar> * 10 ^ f + 1 / 2 = rat_of_int (\<bar>k\<bar> * 10 ^ f) + 1 / 2"
    by simp
  then have "\<lfloor>\<bar>rat_of_int k\<bar> * 10 ^ f + 1 / 2\<rfloor> = \<bar>k\<bar> * 10 ^ f"
    by (simp only: floor_int_half)
  then have "rat_of_nat (fixed_int (of_int k) f) = \<bar>rat_of_int k\<bar> * 10 ^ f"
    by (simp add: fixed_int_def)
  then show ?thesis
    by (cases "k < 0") simp_all
qed

lemma round_int [simp]: "round' (Fin (of_int k)) = Fin (of_int k)"
  by (simp add: floor_int_half)



section \<open>The number branch of the parser\<close>

text \<open>
  C1. The claim is that a numeric input is stored scaled by \<open>10^precision\<close>. The
  code does not: \<open>Money(1)\<close> with the default settings (precision 2) is the object
  with \<open>intValue\<close> 1, not 100, and \<open>value\<close> 1/100. (The branch for numbers assigns
  \<open>v = value\<close>; the branches for currency objects and strings multiply by the
  precision.)
\<close>

theorem number_input_not_scaled:
  "currency (VNum (Fin 1)) defaults = Inr (with_cents 1)
   \<and> intValue (with_cents 1) = Fin 1 \<and> value' (with_cents 1) = Fin (1 / 100)"
  by (simp add: num_eval obj_eval)

text \<open>
  C3. The claim is that \<open>Money(a).add(b).value\<close> is \<open>a + b\<close> to within \<open>10^-p\<close>. In the
  code \<open>Money(1).add(Money(2))\<close> and \<open>Money(0.1).add(0.2)\<close> both are the object with
  \<open>intValue\<close> 0 and \<open>value\<close> 0: \<open>add\<close> divides the sum by the precision and the
  constructor, which does not scale a number, rounds the quotient.
\<close>

theorem add_of_numbers_is_zero:
  "currency (VNum (Fin 1)) defaults = Inr (with_cents 1)
   \<and> currency (VNum (Fin 2)) defaults = Inr (with_cents 2)
   \<and> add (with_cents 1) (VCur (with_cents 2)) = Inr (with_cents 0)
   \<and> currency (VNum (Fin (1 / 10))) defaults = Inr (with_cents 0)
   \<and> add (with_cents 0) (VNum (Fin (2 / 10))) = Inr (with_cents 0)
   \<and> value' (with_cents 0) = Fin 0"
  by (simp add: num_eval obj_eval)

section \<open>Distribution\<close>

text \<open>
  C2. The claim is that the parts \<open>distribute(N)\<close> returns sum to the amount. In the
  code the object with \<open>intValue\<close> 100 (it is \<open>Money("1.00")\<close>) distributed over 3
  gives three objects with \<open>intValue\<close> 0: each part is built by
  \<open>currency(split / _precision, _settings)\<close>, and the constructor does not scale the
  quotient 0.33 back to 33 but rounds it to 0; the penny added to the first part is
  \<open>add(0.01)\<close>, which rounds to 0 as well.
\<close>

theorem distribute_loses_the_amount:
  "currency (VStr ''1.00'') defaults = Inr (with_cents 100)
   \<and> intValue (with_cents 100) = Fin 100
   \<and> distribute (with_cents 100) (Fin 3) = Some (Inr [with_cents 0, with_cents 0, with_cents 0])
   \<and> sum_intValue [with_cents 0, with_cents 0, with_cents 0] = Fin 0"
  by (simp add: num_eval obj_eval str_eval distribute_def split_of_def pennies_of_def
      distribute_loop.simps sum_intValue_def)

lemma split_of_zero: "\<not> finite_num (split_of this (Fin 0))"
  by (cases "intValue this") (simp_all add: split_of_def inf_of_def)

text \<open>
  C9. \<open>distribute(0)\<close> returns the empty sequence and raises nothing, whatever the
  amount: the loop test \<open>count !== 0\<close> fails at once. The split and the pennies are
  computed before the loop; the split is then never a finite number (a division by
  zero gives \<open>NaN\<close> or an infinity), and it is not used.
\<close>

theorem distribute_zero_empty:
  "distribute this (Fin 0) = Some (Inr []) \<and> \<not> finite_num (split_of this (Fin 0))"
  by (simp add: distribute_def distribute_loop.simps split_of_zero)






section \<open>Errors of the parser\<close>

lemma fixed_int_zero [simp]: "fixed_int 0 f = 0"
  by (simp add: fixed_int_def)

lemma decimal_regexps_plain: "plain_decimal c \<Longrightarrow> decimal_regexps [c] = Plain c"
  by (auto simp: decimal_regexps_def plain_decimal_def Let_def)

lemma decimal_regexps_throws:
  "decimal_regexps [] = Throws" "decimal_regexps [CHR 0x5C] = Throws"
  by (simp_all add: decimal_regexps_def)

text \<open>
  C4, as stated, fails: with the backslash as decimal setting and \<open>errorOnInvalid\<close>
  not set, the string \<open>"abc"\<close>, whose cleaned form would be empty, raises a
  \<open>SyntaxError\<close>, since \<open>new RegExp('[^-\\d\\]', 'g')\<close> is a class that is not closed.
\<close>

theorem parse_string_raises_counterexample:
  "errorOnInvalid (defaults\<lparr>decimal := [CHR 0x5C]\<rparr>) = False
   \<and> parse (VStr ''abc'') (defaults\<lparr>decimal := [CHR 0x5C]\<rparr>) True = Inl SyntaxError"
  by (simp add: parse_def decimal_regexps_throws defaults_def)

text \<open>
  C4, as amended. The parser raises \<open>InvalidInput\<close> exactly when \<open>errorOnInvalid\<close> is
  set and the input is neither a number, a string nor a currency object, whatever the
  settings; a number or a currency object never raises. When the decimal setting is
  one plain character, \<open>InvalidInput\<close> is the only error, so that no string raises,
  and a string whose cleaned form does not read as a number (\<open>Number\<close> gives \<open>NaN\<close>)
  parses to 0, with or without the final rounding. When the decimal setting is the
  empty string or the backslash, every string raises a \<open>SyntaxError\<close>.
\<close>

theorem parse_raises:
  "(parse val opts r = Inl InvalidInput) = (errorOnInvalid opts \<and> val = VOther)
   \<and> (val = VNum n \<or> val = VCur cur \<longrightarrow> parse val opts r \<noteq> Inl e)
   \<and> (decimal opts = [c] \<and> plain_decimal c
       \<longrightarrow> (parse val opts r = Inl e) = (e = InvalidInput \<and> errorOnInvalid opts \<and> val = VOther))
   \<and> (decimal opts = [c] \<and> plain_decimal c \<and> val = VStr s
        \<and> Number (convert_decimal c (strip_non_numeric c (replace_parens s))) = NaN
       \<longrightarrow> parse val opts r = Inr (Fin 0))
   \<and> ((decimal opts = [] \<or> decimal opts = [CHR 0x5C]) \<and> val = VStr s
       \<longrightarrow> parse val opts r = Inl SyntaxError)"
proof (intro conjI impI)
  show "(parse val opts r = Inl InvalidInput) = (errorOnInvalid opts \<and> val = VOther)"
    by (cases val) (auto simp: parse_def Let_def split: regexps.splits)
next
  assume "val = VNum n \<or> val = VCur cur"
  then show "parse val opts r \<noteq> Inl e"
    by (auto simp: parse_def Let_def)
next
  assume "decimal opts = [c] \<and> plain_decimal c"
  then have "decimal_regexps (decimal opts) = Plain c"
    by (simp add: decimal_regexps_plain)
  then show "(parse val opts r = Inl e) = (e = InvalidInput \<and> errorOnInvalid opts \<and> val = VOther)"
    by (cases val) (auto simp: parse_def Let_def)
next
  assume a: "decimal opts = [c] \<and> plain_decimal c \<and> val = VStr s
    \<and> Number (convert_decimal c (strip_non_numeric c (replace_parens s))) = NaN"
  then have "decimal_regexps (decimal opts) = Plain c"
    by (simp add: decimal_regexps_plain)
  with a show "parse val opts r = Inr (Fin 0)"
    by (simp add: parse_def Let_def)
next
  assume a: "(decimal opts = [] \<or> decimal opts = [CHR 0x5C]) \<and> val = VStr s"
  then have "decimal_regexps (decimal opts) = Throws"
    using decimal_regexps_throws by auto
  with a show "parse val opts r = Inl SyntaxError"
    by (simp add: parse_def Let_def)
qed

theorem parse_raises_witness:
  "decimal defaults = ''.'' \<and> plain_decimal (CHR ''.'')
   \<and> parse VOther (defaults\<lparr>errorOnInvalid := True\<rparr>) True = Inl InvalidInput
   \<and> parse (VNum (Fin 1)) (defaults\<lparr>errorOnInvalid := True\<rparr>) True \<noteq> Inl InvalidInput
   \<and> Number (convert_decimal (CHR ''.'') (strip_non_numeric (CHR ''.'')
        (replace_parens ''1.2.3''))) = NaN
   \<and> parse (VStr ''1.2.3'') defaults True = Inr (Fin 0)
   \<and> parse (VStr ''1.2.3'') defaults True \<noteq> Inl SyntaxError
   \<and> parse (VStr ''1.2.3'') (defaults\<lparr>decimal := []\<rparr>) True = Inl SyntaxError"
proof -
  have d: "decimal defaults = ''.''" "decimal (defaults\<lparr>errorOnInvalid := True\<rparr>) = ''.''"
    "decimal (defaults\<lparr>decimal := []\<rparr>) = []"
    by (simp_all add: defaults_def)
  have p: "plain_decimal (CHR ''.'')"
    by (simp add: plain_decimal_def is_digit_def)
  have n: "Number (convert_decimal (CHR ''.'') (strip_non_numeric (CHR ''.'')
        (replace_parens ''1.2.3''))) = NaN"
    by (simp add: str_eval)
  have e: "errorOnInvalid (defaults\<lparr>errorOnInvalid := True\<rparr>)"
    by simp
  note t1 = parse_raises [of VOther "defaults\<lparr>errorOnInvalid := True\<rparr>" True]
  note t2 = parse_raises [of "VNum (Fin 1)" "defaults\<lparr>errorOnInvalid := True\<rparr>" True "Fin 1" _
      InvalidInput]
  note t3 = parse_raises [of "VStr ''1.2.3''" defaults True _ _ SyntaxError "CHR ''.''" "''1.2.3''"]
  note t4 = parse_raises [of "VStr ''1.2.3''" "defaults\<lparr>decimal := []\<rparr>" True _ _ _ _ "''1.2.3''"]
  from t1 e have "parse VOther (defaults\<lparr>errorOnInvalid := True\<rparr>) True = Inl InvalidInput"
    by simp
  moreover from t2 have
    "parse (VNum (Fin 1)) (defaults\<lparr>errorOnInvalid := True\<rparr>) True \<noteq> Inl InvalidInput"
    by simp
  moreover from t3 d(1) p n have "parse (VStr ''1.2.3'') defaults True = Inr (Fin 0)"
    by simp
  moreover from t4 d(3) have
    "parse (VStr ''1.2.3'') (defaults\<lparr>decimal := []\<rparr>) True = Inl SyntaxError"
    by simp
  ultimately show ?thesis
    using d(1) p n by simp
qed

section \<open>The arithmetic and the store\<close>












section \<open>Rounding to doubles\<close>

lemma near_bound:
  assumes "near x y" and "\<bar>x\<bar> \<le> 1000000000000001"
  shows "\<bar>y - x\<bar> \<le> 1 / 8"
proof -
  have "\<bar>x\<bar> / 2 ^ 53 \<le> 1000000000000001 / 2 ^ 53"
    using assms(2) by (simp only: divide_right_mono zero_le_power zero_le_numeral)
  also have "\<dots> \<le> (1 / 8 :: rat)"
    by simp
  finally show ?thesis
    using assms(1) unfolding near_def by linarith
qed

lemma fixed_close:
  assumes "toFixed_num (Fin v) f = Fin u"
  shows "\<bar>u - v\<bar> \<le> 1 / (2 * 10 ^ f)"
proof -
  define y where "y = \<bar>v\<bar> * 10 ^ f"
  define n where "n = rat_of_nat (fixed_int v f)"
  have y: "0 \<le> y" by (simp add: y_def)
  then have "0 \<le> \<lfloor>y + 1 / 2\<rfloor>" by simp
  then have n: "n = of_int \<lfloor>y + 1 / 2\<rfloor>"
    by (simp add: fixed_int_def n_def y_def)
  have "\<bar>n - y\<bar> \<le> 1 / 2"
    unfolding n by linarith
  then have "\<bar>n - y\<bar> / 10 ^ f \<le> (1 / 2) / 10 ^ f"
    by (simp only: divide_right_mono zero_le_power zero_le_numeral)
  moreover have "(n - y) / 10 ^ f = n / 10 ^ f - \<bar>v\<bar>"
    by (simp add: y_def diff_divide_distrib)
  then have "\<bar>n / 10 ^ f - \<bar>v\<bar>\<bar> = \<bar>(n - y) / 10 ^ f\<bar>"
    by simp
  then have "\<bar>n - y\<bar> / 10 ^ f = \<bar>n / 10 ^ f - \<bar>v\<bar>\<bar>"
    by (simp only: abs_divide) simp
  ultimately have c: "\<bar>n / 10 ^ f - \<bar>v\<bar>\<bar> \<le> 1 / (2 * 10 ^ f)"
    by simp
  from assms have "u = (if v < 0 then - 1 else 1) * n / 10 ^ f"
    by (simp add: n_def)
  with c show ?thesis
    by (cases "v < 0") (simp_all add: abs_if split: if_splits)
qed

lemma round_close:
  assumes "\<bar>w - rat_of_int k\<bar> < 1 / 2"
  shows "round' (Fin w) = Fin (of_int k)"
proof -
  from assms have "rat_of_int k \<le> w + 1 / 2" and "w + 1 / 2 < rat_of_int k + 1"
    by linarith+
  then have "\<lfloor>w + 1 / 2\<rfloor> = k"
    by (rule floor_unique)
  then show ?thesis by simp
qed

text \<open>
  The string branch of the parser in doubles: the number \<open>q\<close> read from the cleaned
  string is rounded to \<open>d\<close>, the product with the power of ten to \<open>v\<close>; \<open>toFixed(4)\<close>
  prints the exact value of \<open>v\<close>, the string is read as \<open>w\<close>, and \<open>Math.round\<close> is
  exact.
\<close>

lemma parse_in_doubles:
  assumes "q * P = of_int k" and "\<bar>k\<bar> \<le> 10 ^ 15" and "0 < P"
    and "near q d" and "near (d * P) v" and "toFixed_num (Fin v) 4 = Fin u" and "near u w"
  shows "round' (Fin w) = Fin (of_int k)"
proof -
  from assms(2) have "\<bar>k\<bar> \<le> 1000000000000000"
    by simp
  then have kb: "\<bar>rat_of_int k\<bar> \<le> 1000000000000000"
    by linarith
  then have kb': "\<bar>rat_of_int k\<bar> \<le> 1000000000000001"
    by linarith
  have "\<bar>d * P - q * P\<bar> = \<bar>d - q\<bar> * P"
    using assms(3) by (simp add: abs_mult left_diff_distrib [symmetric])
  also have "\<dots> \<le> \<bar>q\<bar> / 2 ^ 53 * P"
    using assms(3,4) by (simp add: near_def mult_right_mono)
  also have "\<dots> = \<bar>q * P\<bar> / 2 ^ 53"
    using assms(3) by (simp add: abs_mult)
  finally have "near (of_int k) (d * P)"
    by (simp add: assms(1) near_def)
  from near_bound [OF this kb'] have e1: "\<bar>d * P - of_int k\<bar> \<le> 1 / 8" .
  from e1 kb have b1: "\<bar>d * P\<bar> \<le> 1000000000000001"
    by linarith
  from near_bound [OF assms(5) b1] have e2: "\<bar>v - d * P\<bar> \<le> 1 / 8" .
  from fixed_close [OF assms(6)] have e3: "\<bar>u - v\<bar> \<le> 1 / 20000"
    by simp
  from e1 e2 e3 kb have b2: "\<bar>u\<bar> \<le> 1000000000000001"
    by linarith
  from near_bound [OF assms(7) b2] have e4: "\<bar>w - u\<bar> \<le> 1 / 8" .
  from e1 e2 e3 e4 have "\<bar>w - rat_of_int k\<bar> < 1 / 2"
    by linarith
  then show ?thesis
    by (rule round_close)
qed

text \<open>
  \<open>toString\<close> in doubles: \<open>intValue / _precision\<close> is rounded to \<open>v1\<close>, the increment
  \<open>1 / precision\<close> to \<open>i\<close>, their quotient to \<open>v2\<close>, and the product of its nearest integer
  with the increment to \<open>v3\<close>, whose exact value \<open>toFixed(2)\<close> prints.
\<close>

lemma toString_in_doubles:
  assumes "\<bar>k\<bar> \<le> 10 ^ 15"
    and "near (of_int k / 100) v1" and "near (1 / 100) i" and "near (v1 / i) v2"
    and "round' (Fin v2) = Fin r" and "near (r * i) v3"
  shows "r = of_int k"
    and "toFixed (Fin v3) 2 =
      Inr ((if k < 0 then ''-'' else []) @ place_point (nat_digits (nat \<bar>k\<bar>)) 2)"
proof -
  from assms(1) have "\<bar>k\<bar> \<le> 1000000000000000"
    by simp
  then have kb: "\<bar>rat_of_int k\<bar> \<le> 1000000000000000"
    by linarith
  have "\<bar>1 / 100 :: rat\<bar> / 2 ^ 53 \<le> 1 / 100 / 8000000000000000"
    by simp
  with assms(3) have i: "\<bar>i - 1 / 100\<bar> \<le> 1 / 100 / 8000000000000000"
    unfolding near_def by linarith
  then have i1: "1 / 101 \<le> i"
    by linarith
  then have ipos: "0 < i"
    by linarith
  have "\<bar>rat_of_int k / 100\<bar> / 2 ^ 53 \<le> 10000000000000 / 2 ^ 53"
    using kb by (intro divide_right_mono) simp_all
  also have "\<dots> \<le> 1 / 800"
    by simp
  finally have e1: "\<bar>v1 - of_int k / 100\<bar> \<le> 1 / 800"
    using assms(2) unfolding near_def by linarith
  have "\<bar>rat_of_int k\<bar> * \<bar>i - 1 / 100\<bar> \<le> 1000000000000000 * (1 / 100 / 8000000000000000)"
    using kb i by (intro mult_mono) simp_all
  also have "\<dots> \<le> 1 / 800"
    by simp
  finally have e2: "\<bar>of_int k * i - of_int k / 100\<bar> \<le> 1 / 800"
    by (simp add: abs_mult [symmetric] right_diff_distrib)
  from e1 e2 have "\<bar>v1 - of_int k * i\<bar> \<le> 1 / 400"
    by linarith
  also have "\<dots> \<le> 101 / 400 * i"
    using i1 by linarith
  finally have "\<bar>v1 - of_int k * i\<bar> / i \<le> 101 / 400"
    using ipos by (simp add: pos_divide_le_eq)
  moreover have "(v1 - of_int k * i) / i = v1 / i - of_int k"
    using ipos by (simp add: diff_divide_distrib)
  then have "\<bar>v1 - of_int k * i\<bar> / i = \<bar>v1 / i - of_int k\<bar>"
    using ipos by (metis abs_divide abs_of_pos)
  ultimately have e3: "\<bar>v1 / i - of_int k\<bar> \<le> 101 / 400"
    by simp
  with kb have "\<bar>v1 / i\<bar> \<le> 1000000000000001"
    by linarith
  from near_bound [OF assms(4) this] have e4: "\<bar>v2 - v1 / i\<bar> \<le> 1 / 8" .
  from e3 e4 have "\<bar>v2 - rat_of_int k\<bar> < 1 / 2"
    by linarith
  then have "round' (Fin v2) = Fin (of_int k)"
    by (rule round_close)
  with assms(5) show r: "r = of_int k"
    by simp
  define y where "y = rat_of_int k * i"
  from e2 kb have yb: "\<bar>y\<bar> \<le> 10000000000001"
    unfolding y_def by linarith
  have "\<bar>y\<bar> / 2 ^ 53 \<le> 10000000000001 / 2 ^ 53"
    using yb by (intro divide_right_mono) simp_all
  also have "\<dots> \<le> 1 / 800"
    by simp
  finally have "\<bar>v3 - y\<bar> \<le> 1 / 800"
    using assms(6) unfolding near_def r y_def by linarith
  with e2 have e5: "\<bar>v3 - of_int k / 100\<bar> \<le> 1 / 400"
    unfolding y_def by linarith
  then have "\<bar>v3 * 100 - rat_of_int k\<bar> \<le> 1 / 4"
    by (simp add: abs_if split: if_splits)
  moreover have "\<bar>\<bar>v3 * 100\<bar> - \<bar>rat_of_int k\<bar>\<bar> \<le> \<bar>v3 * 100 - rat_of_int k\<bar>"
    by (rule abs_triangle_ineq3)
  moreover have "\<bar>v3 * 100\<bar> = \<bar>v3\<bar> * 10 ^ 2" and "\<bar>rat_of_int k\<bar> = rat_of_int \<bar>k\<bar>"
    by (simp_all add: abs_mult)
  ultimately have "rat_of_int \<bar>k\<bar> \<le> \<bar>v3\<bar> * 10 ^ 2 + 1 / 2"
    and "\<bar>v3\<bar> * 10 ^ 2 + 1 / 2 < rat_of_int \<bar>k\<bar> + 1"
    by (simp_all only: abs_le_iff) linarith+
  then have "\<lfloor>\<bar>v3\<bar> * 10 ^ 2 + 1 / 2\<rfloor> = \<bar>k\<bar>"
    by (rule floor_unique)
  then have fi: "fixed_int v3 2 = nat \<bar>k\<bar>"
    by (simp only: fixed_int_def)
  have neg: "(v3 < 0) = (k < 0)"
  proof (cases "k = 0")
    case True
    with assms(6) show ?thesis
      by (simp add: near_def r)
  next
    case False
    show ?thesis
    proof (cases "k < 0")
      case True
      then have "rat_of_int k \<le> - 1"
        by linarith
      with e5 have "v3 < 0"
        by linarith
      with True show ?thesis
        by simp
    next
      case nonneg: False
      with \<open>k \<noteq> 0\<close> have "1 \<le> rat_of_int k"
        by linarith
      with e5 have "\<not> v3 < 0"
        by linarith
      with nonneg show ?thesis
        by simp
    qed
  qed
  from e5 kb have "\<bar>v3\<bar> < 1000000000000000000000"
    by (simp only: abs_le_iff abs_less_iff) linarith
  then have "\<not> 10 ^ 21 \<le> \<bar>v3\<bar>"
    by simp
  then show "toFixed (Fin v3) 2 =
      Inr ((if k < 0 then ''-'' else []) @ place_point (nat_digits (nat \<bar>k\<bar>)) 2)"
    by (simp add: toFixed_def neg fi)
qed

section \<open>Parsing strings\<close>

lemma close_paren_Some:
  assumes "close_paren s = Some (inner, after)"
  shows "s = inner @ CHR '')'' # after"
proof -
  define line where "line = takeWhile (\<lambda>c. \<not> line_terminator c) s"
  define bk where "bk = takeWhile (\<lambda>c. c \<noteq> CHR '')'') (rev line)"
  define front where "front = dropWhile (\<lambda>c. c \<noteq> CHR '')'') (rev line)"
  from assms have mem: "CHR '')'' \<in> set line"
    and inner: "inner = take (length line - Suc (length bk)) line"
    and after: "after = rev bk @ drop (length line) s"
    by (auto simp: close_paren_def line_def bk_def Let_def split: if_splits)
  have rl: "rev line = bk @ front"
    by (simp add: bk_def front_def)
  from mem have "front \<noteq> []"
    by (simp add: front_def)
  then obtain t where front: "front = CHR '')'' # t"
    using hd_dropWhile [of "\<lambda>c. c \<noteq> CHR '')''" "rev line"]
    by (cases front) (auto simp: front_def)
  from rl front have line: "line = rev t @ CHR '')'' # rev bk"
    by (metis rev_rev_ident rev_append rev.simps(2) append.assoc append_Cons append_Nil)
  then have "inner = rev t"
    by (simp add: inner)
  moreover have "s = line @ drop (length line) s"
    by (metis line_def takeWhile_eq_take append_take_drop_id)
  ultimately show ?thesis
    by (simp add: after line)
qed

lemma last_occurrence_unique:
  assumes "xs @ c # ps = ys @ c # qs" and "c \<notin> set ps" and "c \<notin> set qs"
  shows "xs = ys \<and> ps = qs"
proof -
  have "takeWhile (\<lambda>x. x \<noteq> c) (rev (us @ c # vs)) = rev vs" if "c \<notin> set vs" for us vs
  proof -
    from that have "\<And>x. x \<in> set (rev vs) \<Longrightarrow> x \<noteq> c"
      by auto
    then have "takeWhile (\<lambda>x. x \<noteq> c) (rev vs @ c # rev us) =
        rev vs @ takeWhile (\<lambda>x. x \<noteq> c) (c # rev us)"
      by (rule takeWhile_append2)
    then show ?thesis by simp
  qed
  from this [OF assms(2), of xs] this [OF assms(3), of ys] assms(1)
  have "ps = qs" by simp
  with assms(1) show ?thesis by simp
qed

lemma close_paren_append:
  assumes "\<not> list_ex line_terminator inner" and "CHR '')'' \<notin> set post"
  shows "close_paren (inner @ CHR '')'' # post) = Some (inner, post)"
proof -
  let ?s = "inner @ CHR '')'' # post"
  have "CHR '')'' \<in> set (takeWhile (\<lambda>c. \<not> line_terminator c) ?s)"
    using assms(1) by (simp add: takeWhile_append2 list_ex_iff line_terminator_def)
  then obtain i a where c: "close_paren ?s = Some (i, a)"
    by (simp add: close_paren_def Let_def)
  from close_paren_Some [OF this] have eq: "inner @ CHR '')'' # post = i @ CHR '')'' # a" .
  have "CHR '')'' \<notin> set a"
  proof -
    from c have "a = rev (takeWhile (\<lambda>c. c \<noteq> CHR '')'') (rev (takeWhile (\<lambda>c. \<not> line_terminator c) ?s)))
        @ drop (length (takeWhile (\<lambda>c. \<not> line_terminator c) ?s)) ?s"
      by (auto simp: close_paren_def Let_def split: if_splits)
    moreover have "CHR '')'' \<notin> set (takeWhile (\<lambda>c. c \<noteq> CHR '')'') xs)" for xs
      by (auto dest: set_takeWhileD)
    moreover have "set (drop (length (takeWhile (\<lambda>c. \<not> line_terminator c) ?s)) ?s) \<subseteq> set post"
      using assms(1)
      by (simp add: takeWhile_append2 list_ex_iff line_terminator_def) (meson set_drop_subset)
    ultimately show ?thesis
      using assms(2) by auto
  qed
  with eq assms(2) have "inner = i \<and> post = a"
    by (intro last_occurrence_unique)
  then show ?thesis
    using c by simp
qed

lemma replace_parens_shape:
  "replace_parens s = s
   \<or> (\<exists>pre inner post. s = pre @ CHR ''('' # inner @ CHR '')'' # post
        \<and> replace_parens s = pre @ CHR ''-'' # inner @ post)"
proof (induction s)
  case Nil
  show ?case by simp
next
  case (Cons c s)
  show ?case
  proof (cases "c = CHR ''('' \<and> close_paren s \<noteq> None")
    case True
    then obtain inner post where cp: "close_paren s = Some (inner, post)"
      by auto
    from close_paren_Some [OF this] True cp
    have "c # s = [] @ CHR ''('' # inner @ CHR '')'' # post
      \<and> replace_parens (c # s) = [] @ CHR ''-'' # inner @ post"
      by simp
    then show ?thesis by blast
  next
    case False
    then have r: "replace_parens (c # s) = c # replace_parens s"
      by (auto split: option.splits)
    from Cons.IH show ?thesis
    proof
      assume "replace_parens s = s"
      with r show ?thesis by simp
    next
      assume "\<exists>pre inner post. s = pre @ CHR ''('' # inner @ CHR '')'' # post
        \<and> replace_parens s = pre @ CHR ''-'' # inner @ post"
      then obtain pre inner post where "s = pre @ CHR ''('' # inner @ CHR '')'' # post"
        "replace_parens s = pre @ CHR ''-'' # inner @ post"
        by blast
      with r have "c # s = (c # pre) @ CHR ''('' # inner @ CHR '')'' # post
        \<and> replace_parens (c # s) = (c # pre) @ CHR ''-'' # inner @ post"
        by simp
      then show ?thesis by blast
    qed
  qed
qed

lemma replace_parens_single:
  assumes "CHR ''('' \<notin> set pre" and "\<not> list_ex line_terminator inner" and "CHR '')'' \<notin> set post"
  shows "replace_parens (pre @ CHR ''('' # inner @ CHR '')'' # post) = pre @ CHR ''-'' # inner @ post"
  using assms(1) by (induction pre) (auto simp: close_paren_append [OF assms(2,3)])

lemma strip_filter:
  "strip_non_numeric d s = filter (\<lambda>x. is_digit x \<or> x = CHR ''-'' \<or> x = d) s"
  by (induction s) (auto simp: strip_non_numeric_def)

lemma convert_map:
  "convert_decimal d s = map (\<lambda>x. if x = d then CHR ''.'' else x) s"
  by (induction s) (auto simp: convert_decimal_def)

lemma cleaned_alphabet:
  "list_all (\<lambda>c. is_digit c \<or> c = CHR ''-'' \<or> c = CHR ''.'')
     (convert_decimal d (strip_non_numeric d s))"
  by (induction s) (auto simp: convert_map strip_filter)

lemma cleaned_digits:
  assumes "plain_decimal d"
  shows "filter is_digit (convert_decimal d (strip_non_numeric d s)) = filter is_digit s"
proof -
  from assms have "\<not> is_digit d" "\<not> is_digit (CHR ''.'')"
    by (simp_all add: plain_decimal_def Let_def is_digit_def)
  then show ?thesis
    by (induction s) (auto simp: convert_map strip_filter)
qed

lemma replace_parens_digits: "filter is_digit (replace_parens s) = filter is_digit s"
proof -
  have "\<not> is_digit (CHR ''('')" "\<not> is_digit (CHR '')'')" "\<not> is_digit (CHR ''-'')"
    by (simp_all add: is_digit_def)
  then show ?thesis
    using replace_parens_shape [of s] by auto
qed

lemma string_scaled:
  assumes "decimal opts = [c]" and "plain_decimal c"
    and "Number (convert_decimal c (strip_non_numeric c (replace_parens s))) = Fin q"
    and "q * 10 ^ precision opts = of_int k"
  shows "\<exists>m. currency (VStr s) opts = Inr m \<and> intValue m = Fin (of_int k) \<and> value' m = Fin q"
proof -
  have r: "decimal_regexps (decimal opts) = Plain c"
    by (simp add: assms(1,2) decimal_regexps_plain)
  have "(if truthy (Fin (rat_of_int k)) then Fin (rat_of_int k) else Fin 0) = Fin (rat_of_int k)"
    by simp
  moreover have "round' (toFixed_num (Fin 0) 4) = Fin 0"
    by simp
  ultimately have "parse (VStr s) opts True = Inr (round' (toFixed_num (Fin (of_int k)) 4))"
    using assms(3,4) by (simp add: parse_def r pow_def Let_def del: toFixed_num.simps round'.simps)
  then have p: "parse (VStr s) opts True = Inr (Fin (of_int k))"
    by (simp only: toFixed_num_int round_int)
  from assms(4) have "rat_of_int k / 10 ^ precision opts = q"
    by (simp add: field_simps)
  with p show ?thesis
    by (simp add: currency_def pow_def Let_def)
qed

text \<open>
  C6, as stated, fails for a decimal setting from which the regular expressions
  cannot be built: with the empty string as decimal setting, \<open>Money("(1.99)")\<close> raises
  a \<open>SyntaxError\<close> (\<open>new RegExp('\\')\<close>) instead of parsing the string.
\<close>

theorem string_parsing_counterexample:
  "currency (VStr ''(1.99)'') (defaults\<lparr>decimal := []\<rparr>) = Inl SyntaxError"
  by (simp add: currency_def parse_def decimal_regexps_throws defaults_def)

text \<open>
  C6, as amended. Let the decimal setting be one plain character. \<open>replace_parens\<close>
  either leaves the string as it is or removes one pair of parentheses and puts a
  minus sign where the opening one stood, and it does the latter on a string with one
  pair that encloses no line terminator. The first replacement keeps exactly the
  digits, the minus signs and the decimal characters, in their order, and the second
  turns exactly the decimal characters into points; so the cleaned string consists of
  digits, minus signs and points and has the digits of the input. When the cleaned
  string reads as the number \<open>q\<close>, the precision is at most 20 and \<open>q \<times> 10^precision\<close> is
  an integer of magnitude at most \<open>10^15\<close>, the object constructed has that integer as
  \<open>intValue\<close> and \<open>q\<close> as \<open>value\<close>; and the parser finds that integer in doubles too,
  whichever values \<open>near\<close> the exact ones the number read, its product with the power
  of ten and the number read back from \<open>toFixed(4)\<close> are. With the default settings
  \<open>"$1,234.56"\<close> gives the value 1234.56 and \<open>"(1.99)"\<close> the value -1.99.
\<close>

theorem string_parsing:
  assumes "decimal opts = [c]" and "plain_decimal c"
  shows "(replace_parens s = s
      \<or> (\<exists>pre inner post. s = pre @ CHR ''('' # inner @ CHR '')'' # post
           \<and> replace_parens s = pre @ CHR ''-'' # inner @ post))
    \<and> (CHR ''('' \<notin> set pre \<and> \<not> list_ex line_terminator inner \<and> CHR '')'' \<notin> set post
       \<longrightarrow> replace_parens (pre @ CHR ''('' # inner @ CHR '')'' # post) = pre @ CHR ''-'' # inner @ post)
    \<and> strip_non_numeric c t = filter (\<lambda>x. is_digit x \<or> x = CHR ''-'' \<or> x = c) t
    \<and> convert_decimal c t = map (\<lambda>x. if x = c then CHR ''.'' else x) t
    \<and> list_all (\<lambda>x. is_digit x \<or> x = CHR ''-'' \<or> x = CHR ''.'')
         (convert_decimal c (strip_non_numeric c (replace_parens s)))
    \<and> filter is_digit (convert_decimal c (strip_non_numeric c (replace_parens s)))
       = filter is_digit s
    \<and> (Number (convert_decimal c (strip_non_numeric c (replace_parens s))) = Fin q
        \<and> q * 10 ^ precision opts = of_int k \<and> \<bar>k\<bar> \<le> 10 ^ 15 \<and> precision opts \<le> 20
       \<longrightarrow> (\<exists>m. currency (VStr s) opts = Inr m \<and> intValue m = Fin (of_int k) \<and> value' m = Fin q))
    \<and> (q * 10 ^ precision opts = of_int k \<and> \<bar>k\<bar> \<le> 10 ^ 15
        \<and> near q d \<and> near (d * 10 ^ precision opts) v
        \<and> toFixed_num (Fin v) 4 = Fin u \<and> near u w
       \<longrightarrow> round' (Fin w) = Fin (of_int k))
    \<and> currency (VStr ''$1,234.56'') defaults = Inr (with_cents 123456)
    \<and> value' (with_cents 123456) = Fin (123456 / 100)
    \<and> currency (VStr ''(1.99)'') defaults = Inr (with_cents (- 199))
    \<and> value' (with_cents (- 199)) = Fin (- 199 / 100)"
proof -
  have "(0::rat) < 10 ^ precision opts"
    by simp
  from parse_in_doubles [OF _ _ this, of q k d v u w]
  have doubles: "q * 10 ^ precision opts = of_int k \<and> \<bar>k\<bar> \<le> 10 ^ 15
        \<and> near q d \<and> near (d * 10 ^ precision opts) v
        \<and> toFixed_num (Fin v) 4 = Fin u \<and> near u w
       \<longrightarrow> round' (Fin w) = Fin (of_int k)"
    by blast
  have ex1: "currency (VStr ''$1,234.56'') defaults = Inr (with_cents 123456)"
    by (simp add: num_eval obj_eval str_eval)
  have ex2: "currency (VStr ''(1.99)'') defaults = Inr (with_cents (- 199))"
    by (simp add: num_eval obj_eval str_eval)
  have v: "value' (with_cents 123456) = Fin (123456 / 100)"
    "value' (with_cents (- 199)) = Fin (- 199 / 100)"
    by (simp_all add: with_cents_def)
  have scaled: "Number (convert_decimal c (strip_non_numeric c (replace_parens s))) = Fin q
        \<and> q * 10 ^ precision opts = of_int k \<and> \<bar>k\<bar> \<le> 10 ^ 15 \<and> precision opts \<le> 20
       \<longrightarrow> (\<exists>m. currency (VStr s) opts = Inr m \<and> intValue m = Fin (of_int k) \<and> value' m = Fin q)"
    using string_scaled [OF assms, of s q k] by blast
  have cleaned: "replace_parens s = s
      \<or> (\<exists>pre inner post. s = pre @ CHR ''('' # inner @ CHR '')'' # post
           \<and> replace_parens s = pre @ CHR ''-'' # inner @ post)"
    "CHR ''('' \<notin> set pre \<and> \<not> list_ex line_terminator inner \<and> CHR '')'' \<notin> set post
       \<longrightarrow> replace_parens (pre @ CHR ''('' # inner @ CHR '')'' # post) = pre @ CHR ''-'' # inner @ post"
    "strip_non_numeric c t = filter (\<lambda>x. is_digit x \<or> x = CHR ''-'' \<or> x = c) t"
    "convert_decimal c t = map (\<lambda>x. if x = c then CHR ''.'' else x) t"
    "list_all (\<lambda>x. is_digit x \<or> x = CHR ''-'' \<or> x = CHR ''.'')
         (convert_decimal c (strip_non_numeric c (replace_parens s)))"
    "filter is_digit (convert_decimal c (strip_non_numeric c (replace_parens s)))
       = filter is_digit s"
    using replace_parens_shape [of s] replace_parens_single [of pre inner post]
      strip_filter [of c t] convert_map [of c t]
      cleaned_alphabet [of c "replace_parens s"]
      cleaned_digits [OF assms(2), of "replace_parens s"] replace_parens_digits [of s]
    by simp_all
  from cleaned scaled doubles ex1 v(1) ex2 v(2) show ?thesis
    by (intro conjI)
qed

theorem string_parsing_witness:
  "decimal defaults = ''.'' \<and> plain_decimal (CHR ''.'')
   \<and> CHR ''('' \<notin> set [] \<and> \<not> list_ex line_terminator ''1.99'' \<and> CHR '')'' \<notin> set []
   \<and> replace_parens ''(1.99)'' = ''-1.99''
   \<and> Number (convert_decimal (CHR ''.'')
        (strip_non_numeric (CHR ''.'') (replace_parens ''(1.99)''))) = Fin (- 199 / 100)
   \<and> (- 199 / 100) * 10 ^ precision defaults = rat_of_int (- 199)
   \<and> \<bar>- 199 :: int\<bar> \<le> 10 ^ 15 \<and> precision defaults \<le> 20
   \<and> currency (VStr ''(1.99)'') defaults = Inr (with_cents (- 199))
   \<and> intValue (with_cents (- 199)) = Fin (- 199)
   \<and> value' (with_cents (- 199)) = Fin (- 199 / 100)
   \<and> near (- 199 / 100) (- 8962163258467287 / 4503599627370496)
   \<and> near (- 8962163258467287 / 4503599627370496 * 10 ^ precision defaults) (- 199)
   \<and> toFixed_num (Fin (- 199)) 4 = Fin (- 199) \<and> near (- 199) (- 199)
   \<and> round' (Fin (- 199)) = Fin (of_int (- 199))"
proof -
  have e: "near (- 199 / 100) (- 8962163258467287 / 4503599627370496)"
    "near (- 8962163258467287 / 4503599627370496 * 10 ^ precision defaults) (- 199)"
    "toFixed_num (Fin (- 199)) 4 = Fin (- 199)" "near (- 199) (- 199)"
    by (simp_all add: near_def defaults_def fixed_int_def)
  have d: "decimal defaults = ''.''"
    by (simp add: defaults_def)
  have p: "plain_decimal (CHR ''.'')"
    by (simp add: plain_decimal_def is_digit_def)
  have l: "\<not> list_ex line_terminator ''1.99''"
    by (simp add: line_terminator_def)
  have n: "Number (convert_decimal (CHR ''.'')
        (strip_non_numeric (CHR ''.'') (replace_parens ''(1.99)''))) = Fin (- 199 / 100)"
    by (simp add: str_eval)
  have k: "(- 199 / 100) * 10 ^ precision defaults = rat_of_int (- 199)"
    "\<bar>- 199 :: int\<bar> \<le> 10 ^ 15" "precision defaults \<le> 20"
    by (simp_all add: defaults_def)
  from string_parsing [OF d p, of "''(1.99)''" "[]" "''1.99''" "[]" _ "- 199 / 100" "- 199"
      "- 8962163258467287 / 4503599627370496" "- 199" "- 199" "- 199"] l n k e
  have "replace_parens ''(1.99)'' = ''-1.99''"
    and "currency (VStr ''(1.99)'') defaults = Inr (with_cents (- 199))"
    by simp_all
  moreover from string_parsing [OF d p, of "''(1.99)''" "[]" "''1.99''" "[]" _ "- 199 / 100" "- 199"
      "- 8962163258467287 / 4503599627370496" "- 199" "- 199" "- 199"] k e
  have "round' (Fin (- 199)) = Fin (of_int (- 199))"
    by blast
  ultimately show ?thesis
    using d p l n k e
    by (simp add: with_cents_def)
qed

section \<open>Digits\<close>

lemma is_digit_digit_char: "d < 10 \<Longrightarrow> is_digit (digit_char d)"
  by (simp add: is_digit_def digit_char_def)

lemma digit_val_digit_char: "d < 10 \<Longrightarrow> digit_val (digit_char d) = d"
  by (simp add: digit_val_def digit_char_def)

lemma nat_digits_all: "list_all is_digit (nat_digits n)"
  by (induction n rule: nat_digits.induct)
    (subst nat_digits.simps, simp add: is_digit_digit_char)

lemma nat_digits_not_Nil: "nat_digits n \<noteq> []"
  by (subst nat_digits.simps) simp

lemma digits_val_snoc: "digits_val (s @ [c]) = 10 * digits_val s + digit_val c"
  by (simp add: digits_val_def)

lemma digits_val_nat_digits: "digits_val (nat_digits n) = n"
proof (induction n rule: nat_digits.induct)
  case (1 n)
  show ?case
  proof (cases "n < 10")
    case True
    then show ?thesis
      by (subst nat_digits.simps) (simp add: digits_val_def digit_val_digit_char)
  next
    case False
    with 1 have "digits_val (nat_digits (n div 10)) = n div 10"
      by simp
    with False show ?thesis
      by (subst nat_digits.simps) (simp add: digits_val_snoc digit_val_digit_char)
  qed
qed

lemma digits_val_append:
  "digits_val (a @ b) = digits_val a * 10 ^ length b + digits_val b"
  by (induction b rule: rev_induct)
    (simp_all add: digits_val_snoc [of "a @ _", simplified] digits_val_snoc digits_val_def[of "[]"])

lemma digits_val_zeros: "digits_val (replicate k (CHR ''0'')) = 0"
proof (induction k)
  case 0
  show ?case by (simp add: digits_val_def)
next
  case (Suc k)
  have "replicate (Suc k) (CHR ''0'') = replicate k (CHR ''0'') @ [CHR ''0'']"
    by (simp add: replicate_append_same)
  with Suc show ?case
    by (simp only: digits_val_snoc) (simp add: digit_val_def)
qed

lemma not_digit_point: "\<not> is_digit (CHR ''.'')" "\<not> is_digit (CHR ''-'')" "\<not> is_digit (CHR ''+'')"
  "is_digit (CHR ''0'')" "\<not> is_digit (CHR ''I'')"
  by (simp_all add: is_digit_def)
lemma place_point_shape:
  assumes "list_all is_digit m" and "m \<noteq> []" and "0 < f"
  shows "\<exists>whole fraction. place_point m f = whole @ CHR ''.'' # fraction \<and> whole \<noteq> []
    \<and> list_all is_digit whole \<and> list_all is_digit fraction \<and> length fraction = f
    \<and> digits_val (whole @ fraction) = digits_val m"
proof -
  define z where "z = (if length m \<le> f then replicate (f + 1 - length m) (CHR ''0'') @ m else m)"
  have len: "f < length z"
    using assms(2) by (auto simp: z_def)
  have dig: "list_all is_digit z"
    using assms(1) by (simp add: z_def not_digit_point list_all_iff)
  have val: "digits_val z = digits_val m"
    by (simp add: z_def digits_val_append digits_val_zeros)
  let ?w = "take (length z - f) z" and ?r = "drop (length z - f) z"
  have "place_point m f = ?w @ CHR ''.'' # ?r"
    using assms(3) by (simp add: place_point_def z_def Let_def)
  moreover have "?w \<noteq> []"
    using len by auto
  moreover have "list_all is_digit ?w" "list_all is_digit ?r"
    using dig by (auto simp: list_all_iff dest: in_set_takeD in_set_dropD)
  moreover have "length ?r = f"
    using len by simp
  moreover have "digits_val (?w @ ?r) = digits_val m"
    by (simp add: val)
  ultimately show ?thesis by blast
qed

lemma takeWhile_digits:
  assumes "list_all is_digit a" and "\<not> is_digit c"
  shows "takeWhile is_digit (a @ c # b) = a" and "dropWhile is_digit (a @ c # b) = c # b"
  using assms by (induction a) simp_all

lemma unsigned_decimal_point:
  assumes "list_all is_digit whole" and "whole \<noteq> []" and "list_all is_digit fraction"
  shows "unsigned_decimal (whole @ CHR ''.'' # fraction) =
    Fin (of_nat (digits_val (whole @ fraction)) / 10 ^ length fraction)"
proof -
  have "CHR ''.'' \<notin> set ''Infinity''"
    by simp
  then have ne: "whole @ CHR ''.'' # fraction \<noteq> ''Infinity''"
    by (metis in_set_conv_decomp)
  have "rat_of_nat (digits_val whole) + rat_of_nat (digits_val fraction) / 10 ^ length fraction =
      rat_of_nat (digits_val (whole @ fraction)) / 10 ^ length fraction"
    by (simp add: digits_val_append field_simps)
  then show ?thesis
    using assms ne
    by (simp add: unsigned_decimal_def takeWhile_digits [OF assms(1) not_digit_point(1)] Let_def)
qed

lemma unsigned_decimal_digits:
  assumes "list_all is_digit m" and "m \<noteq> []"
  shows "unsigned_decimal m = Fin (of_nat (digits_val m))"
proof -
  from assms have "is_digit (hd m)"
    by (cases m) simp_all
  with assms(2) have ne: "m \<noteq> ''Infinity''"
    using not_digit_point(5) by auto
  from assms(1) have tw: "takeWhile is_digit m = m" and dw: "dropWhile is_digit m = []"
    by (simp_all add: list_all_iff)
  show ?thesis
    unfolding unsigned_decimal_def Let_def tw dw using assms(2) ne by simp
qed

lemma unsigned_decimal_place_point:
  "unsigned_decimal (place_point (nat_digits n) f) = Fin (of_nat n / 10 ^ f)"
proof (cases "f = 0")
  case True
  then show ?thesis
    by (simp add: place_point_def unsigned_decimal_digits nat_digits_all nat_digits_not_Nil
        digits_val_nat_digits)
next
  case False
  then obtain whole fraction where "place_point (nat_digits n) f = whole @ CHR ''.'' # fraction"
    "whole \<noteq> []" "list_all is_digit whole" "list_all is_digit fraction" "length fraction = f"
    "digits_val (whole @ fraction) = digits_val (nat_digits n)"
    using place_point_shape [OF nat_digits_all nat_digits_not_Nil, of f n] by auto
  then show ?thesis
    by (simp add: unsigned_decimal_point digits_val_nat_digits)
qed

lemma place_point_head:
  "\<exists>c t. place_point (nat_digits n) f = c # t \<and> is_digit c"
proof (cases "f = 0")
  case True
  then show ?thesis
    using nat_digits_all [of n] nat_digits_not_Nil [of n]
    by (cases "nat_digits n") (simp_all add: place_point_def)
next
  case False
  then obtain whole fraction where "place_point (nat_digits n) f = whole @ CHR ''.'' # fraction"
    "whole \<noteq> []" "list_all is_digit whole"
    using place_point_shape [OF nat_digits_all nat_digits_not_Nil, of f n] by auto
  then show ?thesis
    by (cases whole) simp_all
qed

text \<open>Reading the output of \<open>toFixed\<close> back is the numeric function the parser uses.\<close>

lemma Number_toFixed:
  assumes "toFixed v f = Inr s"
  shows "Number s = toFixed_num v f"
proof (cases v)
  case (Fin x)
  with assms have s: "s = (if x < 0 then ''-'' else []) @ place_point (nat_digits (fixed_int x f)) f"
    by (auto simp: toFixed_def split: if_splits)
  obtain c t where h: "place_point (nat_digits (fixed_int x f)) f = c # t" "is_digit c"
    using place_point_head by blast
  then have c: "c \<noteq> CHR ''-''" "c \<noteq> CHR ''+''"
    using not_digit_point by auto
  show ?thesis
  proof (cases "x < 0")
    case True
    then show ?thesis
      by (simp add: Fin s Number_def unsigned_decimal_place_point)
  next
    case False
    have "Number (c # t) = unsigned_decimal (c # t)"
      using c by (simp add: Number_def)
    with False h(1) show ?thesis
      by (simp add: Fin s unsigned_decimal_place_point [of "fixed_int x f" f, unfolded h(1)])
  qed
next
  case PInf
  with assms show ?thesis
    by (auto simp: toFixed_def Number_def unsigned_decimal_def split: if_splits)
next
  case NInf
  with assms show ?thesis
    by (auto simp: toFixed_def Number_def unsigned_decimal_def split: if_splits)
next
  case NaN
  with assms show ?thesis
    by (auto simp: toFixed_def Number_def unsigned_decimal_def is_digit_def split: if_splits)
qed

section \<open>The canonical string and back\<close>

lemma replace_parens_id: "CHR ''('' \<notin> set s \<Longrightarrow> replace_parens s = s"
  by (induction s) auto

lemma place_point_alphabet:
  "list_all (\<lambda>c. is_digit c \<or> c = CHR ''.'') (place_point (nat_digits n) f)"
proof (cases "f = 0")
  case True
  then show ?thesis
    using nat_digits_all [of n] by (simp add: place_point_def list_all_iff)
next
  case False
  then obtain whole fraction where "place_point (nat_digits n) f = whole @ CHR ''.'' # fraction"
    "list_all is_digit whole" "list_all is_digit fraction"
    using place_point_shape [OF nat_digits_all nat_digits_not_Nil, of f n] by auto
  then show ?thesis
    by (auto simp: list_all_iff)
qed

lemma toFixed_clean:
  assumes "toFixed (Fin x) f = Inr s"
  shows "convert_decimal (CHR ''.'') (strip_non_numeric (CHR ''.'') (replace_parens s)) = s"
proof -
  from assms have s: "s = (if x < 0 then ''-'' else []) @ place_point (nat_digits (fixed_int x f)) f"
    by (auto simp: toFixed_def split: if_splits)
  have a: "list_all (\<lambda>c. is_digit c \<or> c = CHR ''-'' \<or> c = CHR ''.'') s"
    using place_point_alphabet [of "fixed_int x f" f] by (auto simp: s list_all_iff)
  have "\<not> is_digit (CHR ''('')"
    by (simp add: is_digit_def)
  with a have "CHR ''('' \<notin> set s"
    by (auto simp: list_all_iff)
  then have "replace_parens s = s"
    by (rule replace_parens_id)
  moreover from a have "strip_non_numeric (CHR ''.'') s = s"
    unfolding strip_filter by (intro filter_True) (auto simp: list_all_iff)
  moreover have "convert_decimal (CHR ''.'') s = s"
    by (simp add: convert_map map_idI)
  ultimately show ?thesis by simp
qed

lemma fixed_int_scaled: "fixed_int (of_int k / 10 ^ f) f = nat \<bar>k\<bar>"
proof -
  have "\<bar>rat_of_int k / 10 ^ f\<bar> * 10 ^ f + 1 / 2 = rat_of_int \<bar>k\<bar> + 1 / 2"
    by (simp add: abs_divide)
  then show ?thesis
    by (simp only: fixed_int_def floor_int_half)
qed

lemma toFixed_num_scaled: "toFixed_num (Fin (of_int k / 10 ^ f)) f = Fin (of_int k / 10 ^ f)"
proof -
  have "(rat_of_int k / 10 ^ f < 0) = (k < 0)"
    by (simp add: divide_less_0_iff)
  then show ?thesis
    by (cases "k < 0") (simp_all add: fixed_int_scaled)
qed

lemma round_is_int: "round' y = Fin a \<Longrightarrow> \<exists>k. a = of_int k"
  by (cases y) auto

lemma constructed_fields:
  assumes "currency x opts = Inr m"
  shows "\<exists>y. intValue m = round' y"
    and "value' m = jdiv (intValue m) (pow (precision opts))"
    and "precision' m = pow (precision opts)"
    and "settings' m = opts
      \<lparr>increment := Some (increment_or (increment opts) (jdiv (Fin 1) (pow (precision opts)))),
       groups := Some (if useVedic opts then vedicRegex else groupRegex)\<rparr>"
proof -
  from assms obtain v where p: "parse x opts True = Inr v"
    and m: "m = \<lparr>intValue = v, value' = jdiv v (pow (precision opts)),
        settings' = opts
          \<lparr>increment := Some (increment_or (increment opts) (jdiv (Fin 1) (pow (precision opts)))),
           groups := Some (if useVedic opts then vedicRegex else groupRegex)\<rparr>,
        precision' = pow (precision opts)\<rparr>"
    by (auto simp: currency_def Let_def split: sum.splits)
  from p show "\<exists>y. intValue m = round' y"
    by (auto simp: parse_def Let_def m split: sum.splits)
  show "value' m = jdiv (intValue m) (pow (precision opts))"
    "precision' m = pow (precision opts)"
    "settings' m = opts
      \<lparr>increment := Some (increment_or (increment opts) (jdiv (Fin 1) (pow (precision opts)))),
       groups := Some (if useVedic opts then vedicRegex else groupRegex)\<rparr>"
    by (simp_all add: m)
qed

text \<open>The canonical string of an object with the default settings and a whole \<open>intValue\<close>.\<close>

lemma toString_cents:
  assumes "settings' m = constructed_defaults\<lparr>formatWithSymbol := b\<rparr>"
    and "intValue m = Fin (of_int k)" and "precision' m = Fin 100" and "\<bar>k\<bar> \<le> 10 ^ 15"
  shows "toString m = Inr ((if k < 0 then ''-'' else []) @ place_point (nat_digits (nat \<bar>k\<bar>)) 2)"
    and "toFixed (Fin (of_int k / 10 ^ 2)) 2 =
      Inr ((if k < 0 then ''-'' else []) @ place_point (nat_digits (nat \<bar>k\<bar>)) 2)"
proof -
  have r: "rounding (jdiv (intValue m) (precision' m)) (num_of (increment (settings' m)))
      = Fin (of_int k / 10 ^ 2)"
    by (simp add: assms(1,2,3) constructed_defaults_def num_of_def rounding_def floor_int_half)
  define x where "x = rat_of_int k / 10 ^ 2"
  from assms(4) have "\<bar>rat_of_int k\<bar> \<le> 10 ^ 15"
    by (metis of_int_abs of_int_le_iff of_int_numeral of_int_power)
  then have "\<bar>x\<bar> < 10 ^ 21"
    by (simp add: x_def abs_divide)
  then have small: "\<not> 10 ^ 21 \<le> \<bar>x\<bar>"
    by simp
  have neg: "(x < 0) = (k < 0)"
    by (simp add: x_def divide_less_0_iff)
  have fi: "fixed_int x 2 = nat \<bar>k\<bar>"
    unfolding x_def by (rule fixed_int_scaled)
  have "toFixed (Fin x) 2 =
      Inr ((if k < 0 then ''-'' else []) @ place_point (nat_digits (nat \<bar>k\<bar>)) 2)"
    using small by (simp add: toFixed_def neg fi)
  then show t: "toFixed (Fin (of_int k / 10 ^ 2)) 2 =
      Inr ((if k < 0 then ''-'' else []) @ place_point (nat_digits (nat \<bar>k\<bar>)) 2)"
    by (simp only: x_def)
  show "toString m = Inr ((if k < 0 then ''-'' else []) @ place_point (nat_digits (nat \<bar>k\<bar>)) 2)"
  proof -
    have "precision (settings' m) = 2"
      by (simp add: assms(1) constructed_defaults_def defaults_def)
    then show ?thesis
      unfolding toString_def r by (simp only: t)
  qed
qed

lemma constructed_with_defaults:
  assumes "currency x defaults = Inr m" and "value' m = Fin q" and "\<bar>q\<bar> \<le> 10 ^ 13"
  shows "\<exists>k. m = with_cents (of_int k) \<and> q = of_int k / 10 ^ 2 \<and> \<bar>k\<bar> \<le> 10 ^ 15"
proof -
  note f = constructed_fields [OF assms(1)]
  from f(2) assms(2) obtain a where a: "intValue m = Fin a"
    by (cases "intValue m") (simp_all add: inf_of_def)
  with f(1) obtain k where k: "a = of_int k"
    using round_is_int by metis
  from f(2) assms(2) have q: "q = of_int k / 100"
    by (simp add: a k)
  with assms(3) have "\<bar>rat_of_int k\<bar> \<le> 10 ^ 15"
    by (simp add: abs_divide)
  then have b: "\<bar>k\<bar> \<le> 10 ^ 15"
    by (metis of_int_abs of_int_le_iff of_int_numeral of_int_power)
  have "settings' m = constructed_defaults"
    by (simp add: f(4) constructed_defaults_def increment_or_def) (simp add: defaults_def)
  with f(2,3) a k have "m = with_cents (of_int k)"
    by (simp add: with_cents_def)
  with q b show ?thesis by auto
qed

text \<open>
  C7, as stated, fails at \<open>x = Infinity\<close>: \<open>Money(Infinity)\<close> has the value \<open>Infinity\<close>
  and the canonical string \<open>"Infinity"\<close>, in which the parser finds no digit, so that
  \<open>Money("Infinity")\<close> has the value 0.
\<close>

theorem toString_round_trip_counterexample:
  "currency (VNum PInf) defaults = Inr ((with_cents 0)\<lparr>intValue := PInf, value' := PInf\<rparr>)
   \<and> toString ((with_cents 0)\<lparr>intValue := PInf, value' := PInf\<rparr>) = Inr ''Infinity''
   \<and> currency (VStr ''Infinity'') defaults = Inr (with_cents 0)
   \<and> value' (with_cents 0) \<noteq> value' ((with_cents 0)\<lparr>intValue := PInf, value' := PInf\<rparr>)"
  by (simp add: num_eval obj_eval str_eval toString_def)

text \<open>
  C7, as amended. With the default settings, let the value of \<open>Money(x)\<close> be a finite
  number of magnitude at most \<open>10^13\<close>, so that its \<open>intValue\<close> is an integer of
  magnitude at most \<open>10^15\<close>. Then \<open>toString\<close> returns a string, and constructing from
  it gives the same \<open>value\<close>, and the same \<open>intValue\<close>. In doubles too: \<open>toString\<close> prints
  that string and the parser reads the \<open>intValue\<close> back from it, whichever values
  \<open>near\<close> the exact ones the intermediate results of the two are.
\<close>

theorem toString_round_trip:
  assumes "currency x defaults = Inr m" and "value' m = Fin q" and "\<bar>q\<bar> \<le> 10 ^ 13"
  shows "(\<exists>s m'. toString m = Inr s \<and> currency (VStr s) defaults = Inr m'
      \<and> value' m' = value' m \<and> intValue m' = intValue m)
    \<and> (near q v1 \<and> near (1 / 100) i \<and> near (v1 / i) v2 \<and> round' (Fin v2) = Fin r
        \<and> near (r * i) v3
       \<longrightarrow> toFixed (Fin v3) 2 = toString m)
    \<and> (toString m = Inr str
        \<and> Number (convert_decimal (CHR ''.'') (strip_non_numeric (CHR ''.'') (replace_parens str)))
            = Fin n
        \<and> near n d \<and> near (d * 100) v \<and> toFixed_num (Fin v) 4 = Fin u \<and> near u w
       \<longrightarrow> round' (Fin w) = intValue m)"
proof -
  from constructed_with_defaults [OF assms] obtain k where
    m: "m = with_cents (of_int k)" and q: "q = of_int k / 10 ^ 2" and k: "\<bar>k\<bar> \<le> 10 ^ 15"
    by blast
  define s where "s = (if k < 0 then ''-'' else []) @ place_point (nat_digits (nat \<bar>k\<bar>)) 2"
  have "settings' m = constructed_defaults\<lparr>formatWithSymbol := False\<rparr>"
    by (simp add: m with_cents_def constructed_defaults_def defaults_def)
  moreover have "intValue m = Fin (of_int k)" "precision' m = Fin 100"
    by (simp_all add: m with_cents_def)
  ultimately have ts: "toString m = Inr s" and tf: "toFixed (Fin (of_int k / 10 ^ 2)) 2 = Inr s"
    using toString_cents [of m False k] k by (simp_all add: s_def)
  have d: "decimal defaults = [CHR ''.'']" and p: "plain_decimal (CHR ''.'')"
    by (simp_all add: defaults_def plain_decimal_def is_digit_def)
  have "Number (convert_decimal (CHR ''.'') (strip_non_numeric (CHR ''.'') (replace_parens s)))
      = Fin (of_int k / 10 ^ 2)"
    by (simp only: toFixed_clean [OF tf] Number_toFixed [OF tf] toFixed_num_scaled)
  moreover have "rat_of_int k / 10 ^ 2 * 10 ^ precision defaults = of_int k"
    by (simp add: defaults_def)
  ultimately obtain m' where "currency (VStr s) defaults = Inr m'"
    "intValue m' = Fin (of_int k)" "value' m' = Fin (of_int k / 10 ^ 2)"
    using string_scaled [OF d p] by blast
  with ts have exact: "\<exists>s m'. toString m = Inr s \<and> currency (VStr s) defaults = Inr m'
      \<and> value' m' = value' m \<and> intValue m' = intValue m"
    using assms(2) q by (auto simp: m with_cents_def)
  have iv: "intValue m = Fin (of_int k)"
    by (simp add: m with_cents_def)
  have q100: "q = of_int k / 100"
    by (simp add: q)
  have printed: "near q v1 \<and> near (1 / 100) i \<and> near (v1 / i) v2 \<and> round' (Fin v2) = Fin r
        \<and> near (r * i) v3
       \<longrightarrow> toFixed (Fin v3) 2 = toString m"
    using toString_in_doubles(2) [OF k, of v1 i v2 r v3]
    unfolding ts s_def q100 by blast
  have read: "toString m = Inr str
        \<and> Number (convert_decimal (CHR ''.'') (strip_non_numeric (CHR ''.'') (replace_parens str)))
            = Fin n
        \<and> near n d \<and> near (d * 100) v \<and> toFixed_num (Fin v) 4 = Fin u \<and> near u w
       \<longrightarrow> round' (Fin w) = intValue m"
  proof (intro impI, elim conjE)
    assume "toString m = Inr str"
      and "Number (convert_decimal (CHR ''.'') (strip_non_numeric (CHR ''.'') (replace_parens str)))
            = Fin n"
      and near: "near n d" "near (d * 100) v" "toFixed_num (Fin v) 4 = Fin u" "near u w"
    with ts have "str = s" and "Number (convert_decimal (CHR ''.'')
        (strip_non_numeric (CHR ''.'') (replace_parens s))) = Fin n"
      by simp_all
    then have "n = of_int k / 10 ^ 2"
      by (simp only: toFixed_clean [OF tf] Number_toFixed [OF tf] toFixed_num_scaled) simp
    then have "n * 100 = of_int k"
      by simp
    from parse_in_doubles [OF this k _ near] show "round' (Fin w) = intValue m"
      by (simp add: iv)
  qed
  from exact printed read show ?thesis
    by (intro conjI)
qed

theorem toString_round_trip_witness:
  "currency (VNum (Fin (12345 / 10))) defaults = Inr (with_cents 1235)
   \<and> value' (with_cents 1235) = Fin (1235 / 100)
   \<and> \<bar>1235 / 100 :: rat\<bar> \<le> 10 ^ 13
   \<and> toString (with_cents 1235) = Inr ''12.35''
   \<and> currency (VStr ''12.35'') defaults = Inr (with_cents 1235)
   \<and> (\<exists>s m'. toString (with_cents 1235) = Inr s \<and> currency (VStr s) defaults = Inr m'
        \<and> value' m' = value' (with_cents 1235) \<and> intValue m' = intValue (with_cents 1235))
   \<and> near (1235 / 100) (6952431924753203 / 562949953421312)
   \<and> near (1 / 100) (5764607523034235 / 576460752303423488)
   \<and> near (6952431924753203 / 562949953421312 / (5764607523034235 / 576460752303423488)) 1235
   \<and> round' (Fin 1235) = Fin 1235
   \<and> near (1235 * (5764607523034235 / 576460752303423488)) (6952431924753203 / 562949953421312)
   \<and> toFixed (Fin (6952431924753203 / 562949953421312)) 2 = Inr ''12.35''
   \<and> Number (convert_decimal (CHR ''.'') (strip_non_numeric (CHR ''.'') (replace_parens ''12.35'')))
        = Fin (1235 / 100)
   \<and> near (6952431924753203 / 562949953421312 * 100) 1235
   \<and> toFixed_num (Fin 1235) 4 = Fin 1235 \<and> near 1235 1235
   \<and> round' (Fin 1235) = intValue (with_cents 1235)"
proof -
  have e: "near (1235 / 100) (6952431924753203 / 562949953421312)"
    "near (1 / 100) (5764607523034235 / 576460752303423488)"
    "near (6952431924753203 / 562949953421312 / (5764607523034235 / 576460752303423488)) 1235"
    "round' (Fin 1235) = Fin 1235"
    "near (1235 * (5764607523034235 / 576460752303423488)) (6952431924753203 / 562949953421312)"
    by (simp_all add: near_def)
  have f: "Number (convert_decimal (CHR ''.'')
        (strip_non_numeric (CHR ''.'') (replace_parens ''12.35''))) = Fin (1235 / 100)"
    "near (6952431924753203 / 562949953421312 * 100) 1235"
    "toFixed_num (Fin 1235) 4 = Fin 1235" "near 1235 1235"
    by (simp_all add: near_def str_eval fixed_int_def)
  have c: "currency (VNum (Fin (12345 / 10))) defaults = Inr (with_cents 1235)"
    by (simp add: num_eval obj_eval)
  have v: "value' (with_cents 1235) = Fin (1235 / 100)"
    by (simp add: with_cents_def)
  have b: "\<bar>1235 / 100 :: rat\<bar> \<le> 10 ^ 13"
    by simp
  have s: "toString (with_cents 1235) = Inr ''12.35''"
    by (simp add: num_eval obj_eval str_eval toString_def)
  have c': "currency (VStr ''12.35'') defaults = Inr (with_cents 1235)"
    by (simp add: num_eval obj_eval str_eval)
  note t = toString_round_trip [OF c v b,
      of "6952431924753203 / 562949953421312" "5764607523034235 / 576460752303423488"
        1235 1235 "6952431924753203 / 562949953421312" "''12.35''" "1235 / 100"
        "6952431924753203 / 562949953421312" 1235 1235 1235]
  from t have "\<exists>s m'. toString (with_cents 1235) = Inr s \<and> currency (VStr s) defaults = Inr m'
        \<and> value' m' = value' (with_cents 1235) \<and> intValue m' = intValue (with_cents 1235)"
    by (rule conjunct1)
  moreover from t e
  have "toFixed (Fin (6952431924753203 / 562949953421312)) 2 = toString (with_cents 1235)"
    by blast
  then have "toFixed (Fin (6952431924753203 / 562949953421312)) 2 = Inr ''12.35''"
    by (simp only: s)
  moreover from t s f e(1) have "round' (Fin 1235) = intValue (with_cents 1235)"
    by blast
  ultimately show ?thesis
    using c v b s c' e f by (intro conjI)
qed

section \<open>The formatted string\<close>












end
